theory Spec2Isabelle
  imports Complex_Main
begin

section \<open>Python strings\<close>

text \<open>
  A Python \<open>str\<close> is a sequence of Unicode code points; a code point is modelled by its
  number. \<open>ustr\<close> writes an ASCII literal of the source. A backslash cannot be written inside
  a string literal of the logic, so \<open>raw_str\<close> writes the source's raw strings \<open>r'...'\<close> with
  \<open>/\<close> standing for the backslash (no pattern of the source contains a \<open>/\<close>).
\<close>

type_synonym ustring = "nat list"

abbreviation ord :: "char \<Rightarrow> nat" where
  "ord c \<equiv> of_char c"

definition ustr :: "string \<Rightarrow> ustring" where
  "ustr s = map ord s"

definition raw_str :: "string \<Rightarrow> ustring" where
  "raw_str s = map (\<lambda>c. if c = CHR ''/'' then 92 else ord c) s"

text \<open>
  The Unicode character database belongs to the Python runtime, not to the repository.
  On ASCII the functions below are written out; beyond ASCII they consult a database that
  every definition takes as a parameter, so that each theorem holds for whatever the
  runtime's tables say. \<open>uc_tolower s i\<close> is the lower-casing of the code point at index
  \<open>i\<close> of \<open>s\<close>: it may be several code points and may depend on the neighbours (final sigma).
\<close>

record ucd =
  uc_tolower :: "ustring \<Rightarrow> nat \<Rightarrow> ustring"
  uc_isalpha :: "nat \<Rightarrow> bool"
  uc_isdecimal :: "nat \<Rightarrow> bool"
  uc_isdigit :: "nat \<Rightarrow> bool"
  uc_isnumeric :: "nat \<Rightarrow> bool"
  uc_isspace :: "nat \<Rightarrow> bool"

definition ascii_lower :: "nat \<Rightarrow> nat" where
  "ascii_lower c = (if 65 \<le> c \<and> c \<le> 90 then c + 32 else c)"

text \<open>\<open>str.lower()\<close>: \<open>lower_from U s i cs\<close> lower-cases the suffix \<open>cs\<close> of \<open>s\<close> that starts at index \<open>i\<close>.\<close>

fun lower_from :: "ucd \<Rightarrow> ustring \<Rightarrow> nat \<Rightarrow> ustring \<Rightarrow> ustring" where
  "lower_from U s i [] = []"
| "lower_from U s i (c # cs) =
     (if c < 128 then [ascii_lower c] else uc_tolower U s i) @ lower_from U s (Suc i) cs"

definition lower :: "ucd \<Rightarrow> ustring \<Rightarrow> ustring" where
  "lower U s = lower_from U s 0 s"

text \<open>\<open>p in s\<close> on strings: \<open>p\<close> occurs in \<open>s\<close> as a contiguous substring.\<close>

fun has_prefix :: "ustring \<Rightarrow> ustring \<Rightarrow> bool" where
  "has_prefix [] s = True"
| "has_prefix (c # p) [] = False"
| "has_prefix (c # p) (d # s) = (c = d \<and> has_prefix p s)"

fun str_in :: "ustring \<Rightarrow> ustring \<Rightarrow> bool" where
  "str_in p [] = (p = [])"
| "str_in p (d # s) = (has_prefix p (d # s) \<or> str_in p s)"

text \<open>\<open>sep.join(xs)\<close>.\<close>

fun join :: "ustring \<Rightarrow> ustring list \<Rightarrow> ustring" where
  "join sep [] = []"
| "join sep [x] = x"
| "join sep (x # y # ys) = x @ sep @ join sep (y # ys)"

section \<open>The regular expressions of module \<open>re\<close>\<close>

text \<open>
  The character predicates of the regular-expression engine on \<open>str\<close> patterns: \<open>\d\<close> is a
  Unicode decimal digit, \<open>\s\<close> Unicode white space, and a word character (for \<open>\b\<close>) is
  an alphanumeric character or the underscore, where alphanumeric means alphabetic, decimal,
  digit or numeric.
\<close>

definition isdecimal :: "ucd \<Rightarrow> nat \<Rightarrow> bool" where
  "isdecimal U c = (if c < 128 then 48 \<le> c \<and> c \<le> 57 else uc_isdecimal U c)"

definition isalnum :: "ucd \<Rightarrow> nat \<Rightarrow> bool" where
  "isalnum U c =
     (if c < 128 then (48 \<le> c \<and> c \<le> 57) \<or> (65 \<le> c \<and> c \<le> 90) \<or> (97 \<le> c \<and> c \<le> 122)
      else uc_isalpha U c \<or> uc_isdecimal U c \<or> uc_isdigit U c \<or> uc_isnumeric U c)"

definition isspace :: "ucd \<Rightarrow> nat \<Rightarrow> bool" where
  "isspace U c =
     (if c < 128 then (9 \<le> c \<and> c \<le> 13) \<or> (28 \<le> c \<and> c \<le> 32) else uc_isspace U c)"

definition isword :: "ucd \<Rightarrow> nat \<Rightarrow> bool" where
  "isword U c = (isalnum U c \<or> c = 95)"

text \<open>
  The syntax tree of a parsed pattern, for the fragment the source's patterns are written in:
  literal characters, character sets with ranges and categories, the assertion \<open>\b\<close>,
  non-capturing groups and greedy repetition.
\<close>

datatype category = Category_Digit | Category_Space

datatype item = Item_Literal nat | Item_Range nat nat | Item_Category category

datatype rx =
    Empty
  | Seq rx rx
  | Literal nat
  | In "item list"
  | At_Boundary
  | Subpattern rx
  | Max_Repeat nat "nat option" rx

fun in_item :: "ucd \<Rightarrow> item \<Rightarrow> nat \<Rightarrow> bool" where
  "in_item U (Item_Literal a) c = (c = a)"
| "in_item U (Item_Range lo hi) c = (lo \<le> c \<and> c \<le> hi)"
| "in_item U (Item_Category Category_Digit) c = isdecimal U c"
| "in_item U (Item_Category Category_Space) c = isspace U c"

text \<open>
  A position in the subject string: the character before it, if any, and the characters
  from it on. \<open>\b\<close> holds where exactly one of the two neighbours is a word character.
\<close>

type_synonym pos = "nat option \<times> ustring"

fun boundary :: "ucd \<Rightarrow> pos \<Rightarrow> bool" where
  "boundary U (p, s) =
     ((case s of [] \<Rightarrow> False | c # cs \<Rightarrow> isword U c) \<noteq>
      (case p of None \<Rightarrow> False | Some c \<Rightarrow> isword U c))"

text \<open>
  \<open>ends U r st\<close> lists the positions at which a match of \<open>r\<close> that starts at \<open>st\<close> can end.
  \<open>re.search\<close> is used by the source for its truth value only, so the order in which a
  backtracking engine tries the alternatives does not matter, only whether some match exists.
  \<open>repeat_ends f lo n st\<close> runs the body \<open>f\<close> at least \<open>lo\<close> and at most \<open>n\<close> more times.
  Without an upper bound, \<open>lo\<close> iterations and one more for each remaining character reach
  every position that any number of iterations reaches.
\<close>

fun repeat_ends :: "(pos \<Rightarrow> pos list) \<Rightarrow> nat \<Rightarrow> nat \<Rightarrow> pos \<Rightarrow> pos list" where
  "repeat_ends f lo 0 st = (if lo = 0 then [st] else [])"
| "repeat_ends f lo (Suc n) st =
     (if lo = 0 then [st] else []) @ concat (map (repeat_ends f (lo - 1) n) (f st))"

fun ends :: "ucd \<Rightarrow> rx \<Rightarrow> pos \<Rightarrow> pos list" where
  "ends U Empty st = [st]"
| "ends U (Seq a b) st = concat (map (\<lambda>m. ends U b m) (ends U a st))"
| "ends U (Literal a) (p, s) =
     (case s of [] \<Rightarrow> [] | c # cs \<Rightarrow> if c = a then [(Some c, cs)] else [])"
| "ends U (In items) (p, s) =
     (case s of [] \<Rightarrow> []
      | c # cs \<Rightarrow> if list_ex (\<lambda>i. in_item U i c) items then [(Some c, cs)] else [])"
| "ends U At_Boundary st = (if boundary U st then [st] else [])"
| "ends U (Subpattern r) st = ends U r st"
| "ends U (Max_Repeat lo hi r) (p, s) =
     repeat_ends (\<lambda>m. ends U r m) lo (case hi of Some h \<Rightarrow> h | None \<Rightarrow> lo + length s) (p, s)"

text \<open>\<open>search_from U r p s\<close>: some match of \<open>r\<close> starts at the position \<open>(p, s)\<close> or later.\<close>

fun search_from :: "ucd \<Rightarrow> rx \<Rightarrow> nat option \<Rightarrow> ustring \<Rightarrow> bool" where
  "search_from U r p [] = (ends U r (p, []) \<noteq> [])"
| "search_from U r p (c # cs) = (ends U r (p, c # cs) \<noteq> [] \<or> search_from U r (Some c) cs)"

section \<open>Errors\<close>

text \<open>
  What a call can raise: \<open>re.error\<close> from compiling a pattern, and the \<open>HTTPException\<close> of
  the strict endpoint with its status code and detail. \<open>Not_Modelled\<close> is not a Python
  exception: it marks a pattern written in syntax outside the fragment modelled here, about
  which the model says nothing.
\<close>

datatype pyval =
    PNone
  | PBool bool
  | PInt int
  | PFloat real
  | PStr ustring
  | PList "pyval list"
  | PDict "(ustring \<times> pyval) list"

datatype error = Re_Error | Not_Modelled | HTTPException nat pyval

section \<open>Compiling a pattern\<close>

text \<open>
  The parser of \<open>re\<close> reads the pattern from left to right. It is modelled as a machine
  that consumes one character at a time; its state is the mode below and a stack with one
  list of parsed pieces for each group that is open (the innermost first).
\<close>

datatype mode =
    Top
  | Esc
  | Paren1
  | Paren2
  | Cls0
  | Cls "item list" "item option"
  | ClsEsc "item list"
  | ClsHy "item list" item
  | Lo nat bool
  | Hi nat "nat option"

type_synonym stack = "rx list list"

definition ascii_punct :: "nat \<Rightarrow> bool" where
  "ascii_punct c =
     (c < 128 \<and> \<not> ((48 \<le> c \<and> c \<le> 57) \<or> (65 \<le> c \<and> c \<le> 90) \<or> (97 \<le> c \<and> c \<le> 122)))"

definition is_digit_char :: "nat \<Rightarrow> bool" where
  "is_digit_char c = (48 \<le> c \<and> c \<le> 57)"

text \<open>Appending a parsed piece to the innermost open group.\<close>

fun push :: "rx \<Rightarrow> stack \<Rightarrow> error + mode \<times> stack" where
  "push x [] = Inl Re_Error"
| "push x (fr # st) = Inr (Top, (fr @ [x]) # st)"

text \<open>
  A quantifier applies to the piece before it. There must be one, and it must not be an
  assertion (``nothing to repeat''). A quantifier that follows a quantifier (lazy,
  possessive or multiple repeat) is outside the fragment.
\<close>

fun quantify :: "nat \<Rightarrow> nat option \<Rightarrow> stack \<Rightarrow> error + mode \<times> stack" where
  "quantify lo hi [] = Inl Re_Error"
| "quantify lo hi (fr # st) =
     (if fr = [] then Inl Re_Error
      else case last fr of
             At_Boundary \<Rightarrow> Inl Re_Error
           | Max_Repeat l h x \<Rightarrow> Inl Not_Modelled
           | x \<Rightarrow> Inr (Top, (butlast fr @ [Max_Repeat lo hi x]) # st))"

text \<open>An escape inside a character set: \<open>\d\<close>, \<open>\s\<close>, or an escaped punctuation character.\<close>

definition class_escape :: "nat \<Rightarrow> error + item" where
  "class_escape c =
     (if c = ord CHR ''d'' then Inr (Item_Category Category_Digit)
      else if c = ord CHR ''s'' then Inr (Item_Category Category_Space)
      else if ascii_punct c then Inr (Item_Literal c)
      else Inl Not_Modelled)"

text \<open>A character inside a set when no item is waiting for a possible \<open>-\<close>.\<close>

definition cls_char :: "item list \<Rightarrow> nat \<Rightarrow> stack \<Rightarrow> error + mode \<times> stack" where
  "cls_char items c st =
     (if c = ord CHR '']'' \<and> items \<noteq> [] then push (In items) st
      else if c = 92 then Inr (ClsEsc items, st)
      else Inr (Cls items (Some (Item_Literal c)), st))"

fun step :: "mode \<Rightarrow> stack \<Rightarrow> nat \<Rightarrow> error + mode \<times> stack" where
  "step Top st c =
     (if c = 92 then Inr (Esc, st)
      else if c = ord CHR ''['' then Inr (Cls0, st)
      else if c = ord CHR ''('' then Inr (Paren1, st)
      else if c = ord CHR '')'' then
        (case st of
           inner # outer # rest \<Rightarrow> Inr (Top, (outer @ [Subpattern (foldr Seq inner Empty)]) # rest)
         | _ \<Rightarrow> Inl Re_Error)
      else if c = ord CHR ''*'' then quantify 0 None st
      else if c = ord CHR ''+'' then quantify 1 None st
      else if c = ord CHR ''?'' then quantify 0 (Some 1) st
      else if c = ord CHR ''{'' then Inr (Lo 0 False, st)
      else if c = ord CHR ''.'' \<or> c = ord CHR ''^'' \<or> c = ord CHR ''$'' \<or> c = ord CHR ''|''
        then Inl Not_Modelled
      else push (Literal c) st)"
| "step Esc st c =
     (if c = ord CHR ''b'' then push At_Boundary st
      else if c = ord CHR ''d'' then push (In [Item_Category Category_Digit]) st
      else if c = ord CHR ''s'' then push (In [Item_Category Category_Space]) st
      else if ascii_punct c then push (Literal c) st
      else Inl Not_Modelled)"
| "step Paren1 st c = (if c = ord CHR ''?'' then Inr (Paren2, st) else Inl Not_Modelled)"
| "step Paren2 st c = (if c = ord CHR '':'' then Inr (Top, [] # st) else Inl Not_Modelled)"
| "step Cls0 st c = (if c = ord CHR ''^'' then Inl Not_Modelled else cls_char [] c st)"
| "step (Cls items None) st c = cls_char items c st"
| "step (Cls items (Some it)) st c =
     (if c = ord CHR ''-'' then Inr (ClsHy items it, st) else cls_char (items @ [it]) c st)"
| "step (ClsEsc items) st c =
     (case class_escape c of Inl e \<Rightarrow> Inl e | Inr it \<Rightarrow> Inr (Cls items (Some it), st))"
| "step (ClsHy items it) st c =
     (if c = ord CHR '']'' then push (In (items @ [it, Item_Literal (ord CHR ''-'')])) st
      else if c = 92 then Inl Not_Modelled
      else case it of
             Item_Literal lo \<Rightarrow>
               if c < lo then Inl Re_Error else Inr (Cls (items @ [Item_Range lo c]) None, st)
           | _ \<Rightarrow> Inl Re_Error)"
| "step (Lo n seen) st c =
     (if is_digit_char c then Inr (Lo (10 * n + (c - 48)) True, st)
      else if c = ord CHR '','' then Inr (Hi n None, st)
      else if c = ord CHR ''}'' \<and> seen then quantify n (Some n) st
      else Inl Not_Modelled)"
| "step (Hi lo hi) st c =
     (if is_digit_char c
        then Inr (Hi lo (Some (10 * (case hi of None \<Rightarrow> 0 | Some h \<Rightarrow> h) + (c - 48))), st)
      else if c = ord CHR ''}'' then
        (case hi of
           None \<Rightarrow> quantify lo None st
         | Some h \<Rightarrow> if h < lo then Inl Re_Error else quantify lo (Some h) st)
      else Inl Not_Modelled)"

text \<open>At the end of the pattern every group and every set must be closed.\<close>

fun finish :: "mode \<Rightarrow> stack \<Rightarrow> error + rx" where
  "finish Top [fr] = Inr (foldr Seq fr Empty)"
| "finish (Lo n seen) st = Inl Not_Modelled"
| "finish (Hi lo hi) st = Inl Not_Modelled"
| "finish m st = Inl Re_Error"

fun parse :: "mode \<Rightarrow> stack \<Rightarrow> ustring \<Rightarrow> error + rx" where
  "parse m st [] = finish m st"
| "parse m st (c # cs) =
     (case step m st c of Inl e \<Rightarrow> Inl e | Inr (m', st') \<Rightarrow> parse m' st' cs)"

definition re_compile :: "ustring \<Rightarrow> error + rx" where
  "re_compile pattern = parse Top [Nil] pattern"

text \<open>
  \<open>re.search(pattern, string)\<close> compiles the pattern, which may raise, and returns a match
  object (true) or \<open>None\<close> (false).
\<close>

definition re_search :: "ucd \<Rightarrow> ustring \<Rightarrow> ustring \<Rightarrow> error + bool" where
  "re_search U pattern string =
     (case re_compile pattern of
        Inl e \<Rightarrow> Inl e
      | Inr r \<Rightarrow> Inr (search_from U r None string))"

section \<open>The policy tables and the checker (\<open>guardrails/app/policy.py\<close>)\<close>

definition BANNED_PATTERNS :: "ustring list" where
  "BANNED_PATTERNS =
     [ustr ''because you are a woman'',
      ustr ''because you are a man'',
      ustr ''because you are muslim'',
      ustr ''because you are christian'',
      ustr ''because of your ethnicity'',
      ustr ''because of your race'',
      ustr ''because of your gender'',
      ustr ''because of your age'',
      ustr ''because of your disability'',
      ustr ''due to your religion'']"

text \<open>The dictionary \<open>PII_PATTERNS\<close>, as the list of its items in insertion order.\<close>

definition email_regex :: ustring where
  "email_regex = raw_str ''/b[A-Za-z0-9._%+-]+@[A-Za-z0-9.-]+/.[A-Z|a-z]{2,}/b''"

definition phone_regex :: ustring where
  "phone_regex = raw_str ''/b(?:/+?/d{1,3}[-./s]?)?/(?/d{3}/)?[-./s]?/d{3}[-./s]?/d{4}/b''"

definition ssn_regex :: ustring where
  "ssn_regex = raw_str ''/b/d{3}-/d{2}-/d{4}/b''"

definition PII_PATTERNS :: "(ustring \<times> ustring) list" where
  "PII_PATTERNS =
     [(ustr ''email'', email_regex),
      (ustr ''phone'', phone_regex),
      (ustr ''ssn'', ssn_regex)]"

definition unprofessional_words :: "ustring list" where
  "unprofessional_words = [ustr ''stupid'', ustr ''dumb'', ustr ''idiot'', ustr ''useless'']"

text \<open>The three message formats; 39 is the apostrophe.\<close>

definition discriminatory_msg :: "ustring \<Rightarrow> ustring" where
  "discriminatory_msg pattern = ustr ''Discriminatory reasoning detected: '' @ [39] @ pattern @ [39]"

definition pii_msg :: "ustring \<Rightarrow> ustring" where
  "pii_msg pii_type = ustr ''PII detected: '' @ pii_type"

definition unprofessional_msg :: "ustring list \<Rightarrow> ustring" where
  "unprofessional_msg found = ustr ''Unprofessional language: '' @ join (ustr '', '') found"

text \<open>
  The first loop of \<open>policy_check\<close>, over the banned phrases, appending to \<open>violations\<close>.
\<close>

fun banned_loop :: "ustring \<Rightarrow> ustring list \<Rightarrow> ustring list \<Rightarrow> ustring list" where
  "banned_loop low [] violations = violations"
| "banned_loop low (pattern # rest) violations =
     banned_loop low rest
       (if str_in pattern low then violations @ [discriminatory_msg pattern] else violations)"

text \<open>The second loop, over the items of \<open>PII_PATTERNS\<close>; \<open>re.search\<close> may raise.\<close>

fun pii_loop :: "ucd \<Rightarrow> ustring \<Rightarrow> (ustring \<times> ustring) list \<Rightarrow> ustring list \<Rightarrow> error + ustring list" where
  "pii_loop U text [] violations = Inr violations"
| "pii_loop U text ((pii_type, regex) # rest) violations =
     (case re_search U regex text of
        Inl e \<Rightarrow> Inl e
      | Inr found \<Rightarrow>
          pii_loop U text rest (if found then violations @ [pii_msg pii_type] else violations))"

definition policy_check :: "ucd \<Rightarrow> ustring \<Rightarrow> error + ustring list" where
  "policy_check U text =
     (let low = lower U text;
          violations = banned_loop low BANNED_PATTERNS []
      in case pii_loop U text PII_PATTERNS violations of
           Inl e \<Rightarrow> Inl e
         | Inr violations \<Rightarrow>
             let found_unprofessional = filter (\<lambda>word. str_in word low) unprofessional_words
             in Inr (if found_unprofessional \<noteq> []
                     then violations @ [unprofessional_msg found_unprofessional]
                     else violations))"

section \<open>The two endpoints (\<open>guardrails/app/app.py\<close>)\<close>

text \<open>
  The request and response models. The calls to the logger write to the log only and are
  left out. An exception raised by the checker propagates through both endpoints.
\<close>

record TextValidationRequest =
  payload_text :: ustring  \<comment> \<open>the field \<open>text\<close> of the source\<close>

record ValidationResponse =
  status :: ustring
  is_valid :: bool
  validated_text :: "ustring option"
  violations :: "ustring list option"

definition validate_text :: "ucd \<Rightarrow> TextValidationRequest \<Rightarrow> error + ValidationResponse" where
  "validate_text U payload =
     (let text = payload_text payload
      in case policy_check U text of
           Inl e \<Rightarrow> Inl e
         | Inr found \<Rightarrow>
             if found \<noteq> []
             then Inr \<lparr>status = ustr ''VIOLATION'', is_valid = False,
                       validated_text = None, violations = Some found\<rparr>
             else Inr \<lparr>status = ustr ''OK'', is_valid = True,
                       validated_text = Some text, violations = None\<rparr>)"

text \<open>\<open>payload.get(key)\<close> on a dictionary: the value, or \<open>None\<close> for a missing key.\<close>

definition dict_get :: "(ustring \<rightharpoonup> pyval) \<Rightarrow> ustring \<Rightarrow> pyval" where
  "dict_get d k = (case d k of None \<Rightarrow> PNone | Some v \<Rightarrow> v)"

definition validate_text_strict :: "ucd \<Rightarrow> (ustring \<rightharpoonup> pyval) \<Rightarrow> error + pyval" where
  "validate_text_strict U payload =
     (case dict_get payload (ustr ''text'') of
        PStr text \<Rightarrow>
          (case policy_check U text of
             Inl e \<Rightarrow> Inl e
           | Inr found \<Rightarrow>
               if found \<noteq> []
               then Inl (HTTPException 400
                      (PDict [(ustr ''error'', PStr (ustr ''POLICY_VIOLATION'')),
                              (ustr ''violations'', PList (map PStr found))]))
               else Inr (PDict [(ustr ''status'', PStr (ustr ''OK'')),
                                (ustr ''validated_text'', PStr text)]))
      | _ \<Rightarrow> Inl (HTTPException 400 (PStr (ustr ''Field 'text' must be a string.''))))"

text \<open>
  A character database that classifies no code point beyond ASCII and leaves it unchanged
  by \<open>lower\<close>, for evaluating the checker on concrete inputs.
\<close>

definition plain_ucd :: ucd where
  "plain_ucd =
     \<lparr>uc_tolower = (\<lambda>s i. [s ! i]), uc_isalpha = (\<lambda>c. False), uc_isdecimal = (\<lambda>c. False),
      uc_isdigit = (\<lambda>c. False), uc_isnumeric = (\<lambda>c. False), uc_isspace = (\<lambda>c. False)\<rparr>"

section \<open>The checker as a call on the module's state\<close>





text \<open>
  A character database that knows one code point beyond ASCII, U+00BD (the fraction one
  half), which Unicode classifies as numeric and as neither alphabetic, decimal nor digit.
  \<open>letter_digit_underscore\<close> is the reading of ``word character'' as a letter, a digit or
  the underscore, which leaves out the characters that are numeric only.
\<close>

definition half_ucd :: ucd where
  "half_ucd = plain_ucd\<lparr>uc_isnumeric := (\<lambda>c. c = 189)\<rparr>"

definition letter_digit_underscore :: "ucd \<Rightarrow> nat \<Rightarrow> bool" where
  "letter_digit_underscore U c =
     (if c < 128
      then (48 \<le> c \<and> c \<le> 57) \<or> (65 \<le> c \<and> c \<le> 90) \<or> (97 \<le> c \<and> c \<le> 122) \<or> c = 95
      else uc_isalpha U c \<or> uc_isdecimal U c \<or> uc_isdigit U c)"

section \<open>The compiled patterns\<close>

text \<open>The syntax trees that \<open>re_compile\<close> yields for the three patterns of \<open>PII_PATTERNS\<close>.\<close>

definition email_rx :: rx where
  "email_rx =
     Seq At_Boundary
       (Seq (Max_Repeat 1 None
              (In [Item_Range 65 90, Item_Range 97 122, Item_Range 48 57,
                   Item_Literal 46, Item_Literal 95, Item_Literal 37,
                   Item_Literal 43, Item_Literal 45]))
         (Seq (Literal 64)
           (Seq (Max_Repeat 1 None
                  (In [Item_Range 65 90, Item_Range 97 122,
                       Item_Range 48 57, Item_Literal 46, Item_Literal 45]))
             (Seq (Literal 46)
               (Seq (Max_Repeat 2 None
                      (In [Item_Range 65 90, Item_Literal 124,
                           Item_Range 97 122]))
                 (Seq At_Boundary Empty))))))"

definition sep_set :: rx where
  "sep_set = In [Item_Literal 45, Item_Literal 46, Item_Category Category_Space]"

definition digit_set :: rx where
  "digit_set = In [Item_Category Category_Digit]"

definition phone_rx :: rx where
  "phone_rx =
     Seq At_Boundary
       (Seq (Max_Repeat 0 (Some 1)
              (Subpattern
                (Seq (Max_Repeat 0 (Some 1) (Literal 43))
                  (Seq (Max_Repeat 1 (Some 3) digit_set)
                    (Seq (Max_Repeat 0 (Some 1) sep_set) Empty)))))
         (Seq (Max_Repeat 0 (Some 1) (Literal 40))
           (Seq (Max_Repeat 3 (Some 3) digit_set)
             (Seq (Max_Repeat 0 (Some 1) (Literal 41))
               (Seq (Max_Repeat 0 (Some 1) sep_set)
                 (Seq (Max_Repeat 3 (Some 3) digit_set)
                   (Seq (Max_Repeat 0 (Some 1) sep_set)
                     (Seq (Max_Repeat 4 (Some 4) digit_set)
                       (Seq At_Boundary Empty)))))))))"

definition ssn_rx :: rx where
  "ssn_rx =
     Seq At_Boundary
       (Seq (Max_Repeat 3 (Some 3) digit_set)
         (Seq (Literal 45)
           (Seq (Max_Repeat 2 (Some 2) digit_set)
             (Seq (Literal 45)
               (Seq (Max_Repeat 4 (Some 4) digit_set)
                 (Seq At_Boundary Empty))))))"

section \<open>The three passes\<close>

text \<open>
  What each of the three passes contributes, as the specification words it: one entry for
  each banned phrase found in the lower-cased text, one entry for each kind of PII whose
  pattern is found in the text, and one combined entry for the unprofessional words found.
\<close>

definition discriminatory_pass :: "ucd \<Rightarrow> ustring \<Rightarrow> ustring list" where
  "discriminatory_pass U text =
     map discriminatory_msg (filter (\<lambda>p. str_in p (lower U text)) BANNED_PATTERNS)"

definition pii_pass :: "ucd \<Rightarrow> ustring \<Rightarrow> ustring list" where
  "pii_pass U text =
     map (\<lambda>(pii_type, regex). pii_msg pii_type)
       (filter (\<lambda>(pii_type, regex). re_search U regex text = Inr True) PII_PATTERNS)"

definition unprofessional_pass :: "ucd \<Rightarrow> ustring \<Rightarrow> ustring list" where
  "unprofessional_pass U text =
     (let found = filter (\<lambda>word. str_in word (lower U text)) unprofessional_words
      in if found = [] then [] else [unprofessional_msg found])"

section \<open>Classifying entries and positions\<close>

text \<open>
  An entry of the result belongs to the pass whose message format it starts with.
  \<open>prev_of p pre\<close> is the character before the position reached after reading \<open>pre\<close> from
  a position whose previous character is \<open>p\<close>.
\<close>

definition is_discriminatory :: "ustring \<Rightarrow> bool" where
  "is_discriminatory m = has_prefix (ustr ''Discriminatory reasoning detected: '') m"

definition is_unprofessional :: "ustring \<Rightarrow> bool" where
  "is_unprofessional m = has_prefix (ustr ''Unprofessional language: '') m"

definition prev_of :: "nat option \<Rightarrow> ustring \<Rightarrow> nat option" where
  "prev_of p pre = (if pre = [] then p else Some (last pre))"

section \<open>Basic facts\<close>

text \<open>
  \<open>str_in\<close> is containment as a contiguous substring, and on ASCII text \<open>lower\<close> maps the
  letters \<open>A\<close> to \<open>Z\<close> to \<open>a\<close> to \<open>z\<close> and consults no database.
\<close>

lemma has_prefix_iff: "has_prefix p s \<longleftrightarrow> (\<exists>post. s = p @ post)"
  by (induction p s rule: has_prefix.induct) auto

lemma str_in_iff: "str_in p s \<longleftrightarrow> (\<exists>pre post. s = pre @ p @ post)"
proof (induction s)
  case Nil
  then show ?case by simp
next
  case (Cons d s)
  show ?case
  proof
    assume "str_in p (d # s)"
    then consider "has_prefix p (d # s)" | "str_in p s" by auto
    then show "\<exists>pre post. d # s = pre @ p @ post"
    proof cases
      case 1
      then obtain post where "d # s = p @ post" by (auto simp: has_prefix_iff)
      then have "d # s = [] @ p @ post" by simp
      then show ?thesis by blast
    next
      case 2
      with Cons obtain pre post where "s = pre @ p @ post" by auto
      then have "d # s = (d # pre) @ p @ post" by simp
      then show ?thesis by blast
    qed
  next
    assume "\<exists>pre post. d # s = pre @ p @ post"
    then obtain pre post where e: "d # s = pre @ p @ post" by blast
    show "str_in p (d # s)"
    proof (cases pre)
      case Nil
      with e have "has_prefix p (d # s)" by (auto simp: has_prefix_iff)
      then show ?thesis by simp
    next
      case (Cons c pre')
      with e have "s = pre' @ p @ post" by simp
      with Cons.IH have "str_in p s" by blast
      then show ?thesis by simp
    qed
  qed
qed

lemma lower_from_ascii:
  "\<forall>c\<in>set cs. c < 128 \<Longrightarrow> lower_from U s i cs = map ascii_lower cs"
  by (induction cs arbitrary: i) simp_all

lemma lower_ascii: "\<forall>c\<in>set s. c < 128 \<Longrightarrow> lower U s = map ascii_lower s"
  by (simp add: lower_def lower_from_ascii)

text \<open>The three patterns of the table compile, to the syntax trees given above.\<close>

lemmas parse_defs =
  re_compile_def raw_str_def cls_char_def class_escape_def ascii_punct_def is_digit_char_def

lemma compile_email: "re_compile email_regex = Inr email_rx"
  by (simp add: parse_defs email_regex_def email_rx_def)

lemma compile_phone: "re_compile phone_regex = Inr phone_rx"
  by (simp add: parse_defs phone_regex_def phone_rx_def sep_set_def digit_set_def)

lemma compile_ssn: "re_compile ssn_regex = Inr ssn_rx"
  by (simp add: parse_defs ssn_regex_def ssn_rx_def digit_set_def)

lemma banned_loop_eq:
  "banned_loop low ps acc = acc @ map discriminatory_msg (filter (\<lambda>p. str_in p low) ps)"
  by (induction ps arbitrary: acc) simp_all

lemma pii_loop_eq:
  "pii_loop U text PII_PATTERNS acc = Inr (acc @ pii_pass U text)"
  by (simp add: PII_PATTERNS_def pii_pass_def re_search_def compile_email compile_phone compile_ssn)

lemma policy_check_passes:
  "policy_check U text =
     Inr (discriminatory_pass U text @ pii_pass U text @ unprofessional_pass U text)"
  by (simp add: policy_check_def Let_def banned_loop_eq pii_loop_eq discriminatory_pass_def
      unprofessional_pass_def)

lemma pii_pass_eq:
  "pii_pass U text =
     (if re_search U email_regex text = Inr True then [ustr ''PII detected: email''] else []) @
     (if re_search U phone_regex text = Inr True then [ustr ''PII detected: phone''] else []) @
     (if re_search U ssn_regex text = Inr True then [ustr ''PII detected: ssn''] else [])"
  by (simp add: pii_pass_def PII_PATTERNS_def pii_msg_def ustr_def)

lemma unprofessional_pass_eq:
  "unprofessional_pass U text =
     (if \<exists>word\<in>set unprofessional_words. str_in word (lower U text)
      then [unprofessional_msg (filter (\<lambda>word. str_in word (lower U text)) unprofessional_words)]
      else [])"
  by (auto simp: unprofessional_pass_def Let_def filter_empty_conv)

text \<open>
  Evaluating the checker on a concrete string: the counted repetitions unfold one iteration
  at a time, and the tables and the compiled patterns are written out.
\<close>

lemma repeat_ends_numeral:
  "repeat_ends f lo (numeral k) st =
     (if lo = 0 then [st] else []) @ concat (map (repeat_ends f (lo - 1) (pred_numeral k)) (f st))"
  by (simp add: numeral_eq_Suc)

lemma repeat_ends_1:
  "repeat_ends f lo 1 st =
     (if lo = 0 then [st] else []) @ concat (map (repeat_ends f (lo - 1) 0) (f st))"
  using repeat_ends.simps(2)[of f lo 0 st] by simp

lemmas eval_defs =
  ustr_def lower_def ascii_lower_def isdecimal_def isword_def isalnum_def isspace_def
  repeat_ends_numeral repeat_ends_1 email_rx_def phone_rx_def ssn_rx_def digit_set_def sep_set_def
  re_search_def compile_email compile_phone compile_ssn BANNED_PATTERNS_def
  unprofessional_words_def discriminatory_msg_def unprofessional_msg_def

lemma check_you_idiot:
  "policy_check U (ustr ''you idiot'') = Inr [ustr ''Unprofessional language: idiot'']"
  unfolding policy_check_passes discriminatory_pass_def pii_pass_eq unprofessional_pass_eq
  by (simp add: eval_defs)

lemma check_hello: "policy_check U (ustr ''Hello'') = Inr []"
  unfolding policy_check_passes discriminatory_pass_def pii_pass_eq unprofessional_pass_eq
  by (simp add: eval_defs)

section \<open>The order of the passes\<close>

text \<open>
  Claim C1. For every input the checker returns, in this order: one entry for each banned
  phrase that occurs in the lower-cased text, in the order of the table; then the PII entries
  for email, phone and ssn, each present when its pattern is found in the text; then, when
  some unprofessional word occurs, one combined entry. All three passes contribute whatever
  the other passes found.
\<close>

theorem policy_check_pass_order:
  "policy_check U text =
     Inr (map discriminatory_msg (filter (\<lambda>p. str_in p (lower U text)) BANNED_PATTERNS) @
          ((if re_search U email_regex text = Inr True then [ustr ''PII detected: email''] else []) @
           (if re_search U phone_regex text = Inr True then [ustr ''PII detected: phone''] else []) @
           (if re_search U ssn_regex text = Inr True then [ustr ''PII detected: ssn''] else [])) @
          (if \<exists>word\<in>set unprofessional_words. str_in word (lower U text)
           then [unprofessional_msg
                   (filter (\<lambda>word. str_in word (lower U text)) unprofessional_words)]
           else []))"
  unfolding policy_check_passes discriminatory_pass_def pii_pass_eq unprofessional_pass_eq ..

theorem policy_check_pass_order_witness:
  "policy_check plain_ucd (ustr ''No, because of your Age; a@b.co, idiot'') =
     Inr [discriminatory_msg (ustr ''because of your age''),
          ustr ''PII detected: email'',
          ustr ''Unprofessional language: idiot'']"
  unfolding policy_check_pass_order [of plain_ucd] by (simp add: eval_defs)

section \<open>Totality and determinism\<close>

text \<open>
  Claim C3. The checker is total on strings: for every sequence of code points, whatever
  the character database says about them, it returns a list of violations and raises
  nothing. In particular the three patterns of the table compile.
\<close>

theorem policy_check_total: "\<exists>found. policy_check U text = Inr found"
  by (simp add: policy_check_passes)

theorem policy_check_total_witness:
  "\<exists>found. policy_check plain_ucd [0, 7, 233, 8364, 49, 50, 51, 45, 64, 46, 40, 43] = Inr found"
  by (rule policy_check_total)




section \<open>The lenient endpoint\<close>

text \<open>
  Claim C2. For every string the lenient endpoint returns a response whose \<open>is_valid\<close> holds
  exactly when the checker's list is empty. When the list is not empty the response is
  \<open>VIOLATION\<close>, not valid, without validated text and with that list as its violations; when
  it is empty the response is \<open>OK\<close>, valid, with the original text and without violations.
\<close>

theorem validate_text_invariant:
  "\<exists>found r. policy_check U s = Inr found \<and>
     validate_text U \<lparr>payload_text = s\<rparr> = Inr r \<and>
     is_valid r = (found = []) \<and>
     (found \<noteq> [] \<longrightarrow>
        r = \<lparr>status = ustr ''VIOLATION'', is_valid = False,
             validated_text = None, violations = Some found\<rparr>) \<and>
     (found = [] \<longrightarrow>
        r = \<lparr>status = ustr ''OK'', is_valid = True,
             validated_text = Some s, violations = None\<rparr>)"
proof -
  obtain found where f: "policy_check U s = Inr found"
    by (auto simp: policy_check_passes)
  show ?thesis
    by (cases "found = []") (simp_all add: f validate_text_def)
qed

theorem validate_text_invariant_witness:
  "validate_text plain_ucd \<lparr>payload_text = ustr ''you idiot''\<rparr> =
     Inr \<lparr>status = ustr ''VIOLATION'', is_valid = False, validated_text = None,
          violations = Some [ustr ''Unprofessional language: idiot'']\<rparr> \<and>
   validate_text plain_ucd \<lparr>payload_text = ustr ''Hello''\<rparr> =
     Inr \<lparr>status = ustr ''OK'', is_valid = True, validated_text = Some (ustr ''Hello''),
          violations = None\<rparr>"
  using validate_text_invariant [of plain_ucd "ustr ''you idiot''"]
    validate_text_invariant [of plain_ucd "ustr ''Hello''"]
  by (auto simp: check_you_idiot check_hello)

section \<open>The strict endpoint\<close>

text \<open>
  Claim C4. In strict mode a payload whose \<open>text\<close> is missing or is not a string raises the
  client error \<open>Field 'text' must be a string.\<close>; a string on which the checker reports
  violations raises the client error that carries \<open>POLICY_VIOLATION\<close> and exactly the
  checker's list; a string without violations returns \<open>OK\<close> with the text.
\<close>

theorem validate_text_strict_cases:
  "((payload (ustr ''text'') = None \<or>
     (\<exists>v. payload (ustr ''text'') = Some v \<and> (\<forall>t. v \<noteq> PStr t))) \<longrightarrow>
      validate_text_strict U payload =
        Inl (HTTPException 400 (PStr (ustr ''Field 'text' must be a string.'')))) \<and>
   (\<forall>t found. payload (ustr ''text'') = Some (PStr t) \<and> policy_check U t = Inr found \<longrightarrow>
      (found \<noteq> [] \<longrightarrow>
         validate_text_strict U payload =
           Inl (HTTPException 400
                 (PDict [(ustr ''error'', PStr (ustr ''POLICY_VIOLATION'')),
                         (ustr ''violations'', PList (map PStr found))]))) \<and>
      (found = [] \<longrightarrow>
         validate_text_strict U payload =
           Inr (PDict [(ustr ''status'', PStr (ustr ''OK'')),
                       (ustr ''validated_text'', PStr t)])))"
proof (intro conjI impI allI)
  assume "payload (ustr ''text'') = None \<or>
     (\<exists>v. payload (ustr ''text'') = Some v \<and> (\<forall>t. v \<noteq> PStr t))"
  then show "validate_text_strict U payload =
        Inl (HTTPException 400 (PStr (ustr ''Field 'text' must be a string.'')))"
    by (auto simp: validate_text_strict_def dict_get_def split: pyval.splits)
next
  fix t found
  assume "payload (ustr ''text'') = Some (PStr t) \<and> policy_check U t = Inr found"
    and "found \<noteq> []"
  then show "validate_text_strict U payload =
           Inl (HTTPException 400
                 (PDict [(ustr ''error'', PStr (ustr ''POLICY_VIOLATION'')),
                         (ustr ''violations'', PList (map PStr found))]))"
    by (simp add: validate_text_strict_def dict_get_def)
next
  fix t found
  assume "payload (ustr ''text'') = Some (PStr t) \<and> policy_check U t = Inr found"
    and "found = []"
  then show "validate_text_strict U payload =
           Inr (PDict [(ustr ''status'', PStr (ustr ''OK'')),
                       (ustr ''validated_text'', PStr t)])"
    by (simp add: validate_text_strict_def dict_get_def)
qed

theorem validate_text_strict_cases_witness:
  "validate_text_strict plain_ucd [ustr ''text'' \<mapsto> PInt 42] =
     Inl (HTTPException 400 (PStr (ustr ''Field 'text' must be a string.''))) \<and>
   validate_text_strict plain_ucd Map.empty =
     Inl (HTTPException 400 (PStr (ustr ''Field 'text' must be a string.''))) \<and>
   validate_text_strict plain_ucd [ustr ''text'' \<mapsto> PStr (ustr ''you idiot'')] =
     Inl (HTTPException 400
           (PDict [(ustr ''error'', PStr (ustr ''POLICY_VIOLATION'')),
                   (ustr ''violations'', PList [PStr (ustr ''Unprofessional language: idiot'')])])) \<and>
   validate_text_strict plain_ucd [ustr ''text'' \<mapsto> PStr (ustr ''Hello'')] =
     Inr (PDict [(ustr ''status'', PStr (ustr ''OK'')),
                 (ustr ''validated_text'', PStr (ustr ''Hello''))])"
  using validate_text_strict_cases [of "[ustr ''text'' \<mapsto> PInt 42]" plain_ucd]
    validate_text_strict_cases [of Map.empty plain_ucd]
    validate_text_strict_cases [of "[ustr ''text'' \<mapsto> PStr (ustr ''you idiot'')]" plain_ucd]
    validate_text_strict_cases [of "[ustr ''text'' \<mapsto> PStr (ustr ''Hello'')]" plain_ucd]
  by (simp add: check_you_idiot check_hello)

section \<open>The discriminatory pass\<close>

lemma has_prefix_append: "has_prefix xs (xs @ ys)"
  by (induction xs) simp_all

lemma is_discriminatory_msg: "is_discriminatory (discriminatory_msg p)"
  by (simp add: is_discriminatory_def discriminatory_msg_def has_prefix_append)

lemma is_unprofessional_msg: "is_unprofessional (unprofessional_msg ws)"
  by (simp add: is_unprofessional_def unprofessional_msg_def has_prefix_append)

lemma hd_discriminatory_msg: "hd (discriminatory_msg p) = 68"
  by (simp add: discriminatory_msg_def ustr_def)

lemma hd_unprofessional_msg: "hd (unprofessional_msg ws) = 85"
  by (simp add: unprofessional_msg_def ustr_def)

lemma hd_discriminatory_pass: "m \<in> set (discriminatory_pass U s) \<Longrightarrow> hd m = 68"
  by (auto simp: discriminatory_pass_def hd_discriminatory_msg)

lemma hd_pii_pass: "m \<in> set (pii_pass U s) \<Longrightarrow> hd m = 80"
  by (auto simp: pii_pass_eq ustr_def split: if_splits)

lemma hd_unprofessional_pass: "m \<in> set (unprofessional_pass U s) \<Longrightarrow> hd m = 85"
  by (auto simp: unprofessional_pass_eq hd_unprofessional_msg split: if_splits)

lemma is_discriminatory_hd: "is_discriminatory m \<Longrightarrow> hd m = 68"
  by (cases m) (simp_all add: is_discriminatory_def ustr_def)

lemma is_unprofessional_hd: "is_unprofessional m \<Longrightarrow> hd m = 85"
  by (cases m) (simp_all add: is_unprofessional_def ustr_def)

lemma filter_none: "(\<And>x. x \<in> set xs \<Longrightarrow> \<not> P x) \<Longrightarrow> filter P xs = []"
  by (induction xs) simp_all

lemma filter_all: "(\<And>x. x \<in> set xs \<Longrightarrow> P x) \<Longrightarrow> filter P xs = xs"
  by (induction xs) simp_all

lemma discriminatory_entries_of_passes:
  "filter is_discriminatory
     (discriminatory_pass U s @ pii_pass U s @ unprofessional_pass U s) =
   discriminatory_pass U s"
proof -
  have a: "filter is_discriminatory (discriminatory_pass U s) = discriminatory_pass U s"
    by (rule filter_all) (auto simp: discriminatory_pass_def is_discriminatory_msg)
  have b: "filter is_discriminatory (pii_pass U s) = []"
    by (rule filter_none) (use hd_pii_pass is_discriminatory_hd in fastforce)
  have c: "filter is_discriminatory (unprofessional_pass U s) = []"
    by (rule filter_none) (use hd_unprofessional_pass is_discriminatory_hd in fastforce)
  show ?thesis by (simp add: a b c)
qed

lemma unprofessional_entries_of_front:
  "filter is_unprofessional (discriminatory_pass U s @ pii_pass U s) = []"
proof (rule filter_none)
  fix m assume "m \<in> set (discriminatory_pass U s @ pii_pass U s)"
  then have "hd m = 68 \<or> hd m = 80"
    using hd_discriminatory_pass hd_pii_pass by auto
  then show "\<not> is_unprofessional m"
    using is_unprofessional_hd by fastforce
qed

lemma distinct_BANNED_PATTERNS: "distinct BANNED_PATTERNS"
  by (simp add: BANNED_PATTERNS_def ustr_def)

lemma inj_discriminatory_msg: "inj_on discriminatory_msg A"
  by (simp add: inj_on_def discriminatory_msg_def)

lemma distinct_discriminatory_pass: "distinct (discriminatory_pass U s)"
  unfolding discriminatory_pass_def
  by (simp add: distinct_map distinct_BANNED_PATTERNS inj_discriminatory_msg)

lemma filter_two:
  "P a \<Longrightarrow> P b \<Longrightarrow> filter P (a # xs @ b # ys) = a # filter P xs @ b # filter P ys"
  by simp

lemma discriminatory_entries_aux:
  "\<exists>found. policy_check U s = Inr found \<and>
     (\<forall>p\<in>set BANNED_PATTERNS. str_in p (lower U s) \<longrightarrow> discriminatory_msg p \<in> set found) \<and>
     filter is_discriminatory found =
       map discriminatory_msg (filter (\<lambda>p. str_in p (lower U s)) BANNED_PATTERNS) \<and>
     distinct (filter is_discriminatory found) \<and>
     (str_in (ustr ''because you are a woman'') (lower U s) \<and>
      str_in (ustr ''because of your age'') (lower U s) \<longrightarrow>
        (\<exists>xs ys zs. found =
           xs @ discriminatory_msg (ustr ''because you are a woman'') #
           ys @ discriminatory_msg (ustr ''because of your age'') # zs))"
proof -
  let ?found = "discriminatory_pass U s @ pii_pass U s @ unprofessional_pass U s"
  let ?P = "\<lambda>p. str_in p (lower U s)"
  have 1: "policy_check U s = Inr ?found" by (rule policy_check_passes)
  have 2: "\<forall>p\<in>set BANNED_PATTERNS. ?P p \<longrightarrow> discriminatory_msg p \<in> set ?found"
    by (auto simp: discriminatory_pass_def)
  have 3: "filter is_discriminatory ?found = map discriminatory_msg (filter ?P BANNED_PATTERNS)"
    unfolding discriminatory_entries_of_passes by (simp add: discriminatory_pass_def)
  have 5: "distinct (filter is_discriminatory ?found)"
    unfolding discriminatory_entries_of_passes by (rule distinct_discriminatory_pass)
  have 4: "\<exists>xs ys zs. ?found =
           xs @ discriminatory_msg (ustr ''because you are a woman'') #
           ys @ discriminatory_msg (ustr ''because of your age'') # zs"
    if w: "?P (ustr ''because you are a woman'')" and a: "?P (ustr ''because of your age'')"
  proof -
    let ?mid = "[ustr ''because you are a man'', ustr ''because you are muslim'',
        ustr ''because you are christian'', ustr ''because of your ethnicity'',
        ustr ''because of your race'', ustr ''because of your gender'']"
    let ?tail = "[ustr ''because of your disability'', ustr ''due to your religion'']"
    have B: "BANNED_PATTERNS =
        ustr ''because you are a woman'' # ?mid @ ustr ''because of your age'' # ?tail"
      by (simp add: BANNED_PATTERNS_def)
    have "discriminatory_pass U s =
        map discriminatory_msg
          (ustr ''because you are a woman'' # filter ?P ?mid @
           ustr ''because of your age'' # filter ?P ?tail)"
      by (simp only: discriminatory_pass_def B filter_two [where P = "?P", OF w a])
    then have "?found =
        [] @ discriminatory_msg (ustr ''because you are a woman'') #
        map discriminatory_msg (filter ?P ?mid) @
        discriminatory_msg (ustr ''because of your age'') #
        (map discriminatory_msg (filter ?P ?tail) @ pii_pass U s @ unprofessional_pass U s)"
      by (simp only: map_append list.map append.simps append_assoc)
    then show ?thesis by blast
  qed
  from 1 2 3 4 5 show ?thesis by blast
qed

text \<open>
  Claim C5. The discriminatory pass tests every banned phrase against the lower-cased input
  and does not stop at the first match. Each phrase that occurs there has its own entry in
  the result, the text \<open>Discriminatory reasoning detected: '\<close>, the phrase, and a closing
  apostrophe (code point 39). The discriminatory entries of the result are exactly these
  entries, one for each phrase that occurs, in the order of the table, and no two of them are
  equal. In particular, when \<open>because you are a woman\<close> and \<open>because of your age\<close> both
  occur, the result holds the entry of the first and, after it, the entry of the second.
\<close>

theorem discriminatory_entries:
  "\<exists>found. policy_check U s = Inr found \<and>
     (\<forall>p\<in>set BANNED_PATTERNS. str_in p (lower U s) \<longrightarrow>
        ustr ''Discriminatory reasoning detected: '' @ [39] @ p @ [39] \<in> set found) \<and>
     filter is_discriminatory found =
       map (\<lambda>p. ustr ''Discriminatory reasoning detected: '' @ [39] @ p @ [39])
         (filter (\<lambda>p. str_in p (lower U s)) BANNED_PATTERNS) \<and>
     distinct (filter is_discriminatory found) \<and>
     (str_in (ustr ''because you are a woman'') (lower U s) \<and>
      str_in (ustr ''because of your age'') (lower U s) \<longrightarrow>
        (\<exists>xs ys zs. found =
           xs @ (ustr ''Discriminatory reasoning detected: 'because you are a woman'' @ [39]) #
           ys @ (ustr ''Discriminatory reasoning detected: 'because of your age'' @ [39]) # zs))"
proof -
  have woman_msg: "discriminatory_msg (ustr ''because you are a woman'') =
      ustr ''Discriminatory reasoning detected: 'because you are a woman'' @ [39]"
    by (simp add: discriminatory_msg_def ustr_def)
  have age_msg: "discriminatory_msg (ustr ''because of your age'') =
      ustr ''Discriminatory reasoning detected: 'because of your age'' @ [39]"
    by (simp add: discriminatory_msg_def ustr_def)
  have msg_text: "discriminatory_msg =
      (\<lambda>p. ustr ''Discriminatory reasoning detected: '' @ [39] @ p @ [39])"
    by (rule ext) (simp add: discriminatory_msg_def)
  show ?thesis
    using discriminatory_entries_aux [of U s]
    unfolding woman_msg age_msg unfolding msg_text .
qed

theorem discriminatory_entries_witness:
  "str_in (ustr ''because you are a woman'')
     (lower plain_ucd (ustr ''Because of your AGE, because you are a woman'')) \<and>
   str_in (ustr ''because of your age'')
     (lower plain_ucd (ustr ''Because of your AGE, because you are a woman'')) \<and>
   (\<exists>found. policy_check plain_ucd (ustr ''Because of your AGE, because you are a woman'') =
       Inr found \<and>
     filter is_discriminatory found =
       [ustr ''Discriminatory reasoning detected: 'because you are a woman'' @ [39],
        ustr ''Discriminatory reasoning detected: 'because of your age'' @ [39]])"
proof -
  let ?t = "ustr ''Because of your AGE, because you are a woman''"
  have e: "map (\<lambda>p. ustr ''Discriminatory reasoning detected: '' @ [39] @ p @ [39])
        (filter (\<lambda>p. str_in p (lower plain_ucd ?t)) BANNED_PATTERNS) =
      [ustr ''Discriminatory reasoning detected: 'because you are a woman'' @ [39],
       ustr ''Discriminatory reasoning detected: 'because of your age'' @ [39]]"
    by (simp add: eval_defs)
  have w: "str_in (ustr ''because you are a woman'') (lower plain_ucd ?t)"
    and a: "str_in (ustr ''because of your age'') (lower plain_ucd ?t)"
    by (simp_all add: eval_defs)
  from discriminatory_entries [of plain_ucd ?t] e w a show ?thesis by auto
qed

section \<open>The unprofessional pass\<close>

lemma distinct_unprofessional_words: "distinct unprofessional_words"
  by (simp add: unprofessional_words_def ustr_def)

text \<open>
  Claim C6. When at least one of the words \<open>stupid\<close>, \<open>dumb\<close>, \<open>idiot\<close>, \<open>useless\<close> occurs
  in the lower-cased input, the result ends with one combined entry and no entry before it
  is an unprofessional-language entry. The entry is the text \<open>Unprofessional language: \<close>
  followed by the words of the table that occur, in the order of the table and each once:
  every word but the last followed by a comma and a space, then the last word. The input
  \<open>That was a stupid and dumb idea\<close> yields exactly the one entry
  \<open>Unprofessional language: stupid, dumb\<close>, and an input with all four words, in any order,
  lists all four in the order of the table.
\<close>

theorem unprofessional_entry:
  "(\<exists>found. policy_check U s = Inr found \<and>
      ((\<exists>word\<in>set unprofessional_words. str_in word (lower U s)) \<longrightarrow>
         (\<exists>front. found =
             front @ [ustr ''Unprofessional language: '' @
               concat (map (\<lambda>word. word @ ustr '', '')
                 (butlast (filter (\<lambda>word. str_in word (lower U s)) unprofessional_words))) @
               last (filter (\<lambda>word. str_in word (lower U s)) unprofessional_words)] \<and>
            filter is_unprofessional front = [])) \<and>
      distinct (filter (\<lambda>word. str_in word (lower U s)) unprofessional_words)) \<and>
   unprofessional_words = [ustr ''stupid'', ustr ''dumb'', ustr ''idiot'', ustr ''useless''] \<and>
   policy_check U (ustr ''That was a stupid and dumb idea'') =
     Inr [ustr ''Unprofessional language: stupid, dumb''] \<and>
   policy_check U (ustr ''useless idiot, dumb, stupid'') =
     Inr [ustr ''Unprofessional language: stupid, dumb, idiot, useless'']"
proof -
  let ?front = "discriminatory_pass U s @ pii_pass U s"
  let ?ws = "filter (\<lambda>word. str_in word (lower U s)) unprofessional_words"
  have 1: "policy_check U s = Inr (?front @ unprofessional_pass U s)"
    by (simp add: policy_check_passes)
  have 2: "filter is_unprofessional ?front = []"
    by (rule unprofessional_entries_of_front)
  have 3: "distinct ?ws"
    using distinct_unprofessional_words by simp
  have 4: "policy_check U (ustr ''That was a stupid and dumb idea'') =
      Inr [ustr ''Unprofessional language: stupid, dumb'']"
    unfolding policy_check_passes discriminatory_pass_def pii_pass_eq unprofessional_pass_eq
    by (simp add: eval_defs)
  have 6: "policy_check U (ustr ''useless idiot, dumb, stupid'') =
      Inr [ustr ''Unprofessional language: stupid, dumb, idiot, useless'']"
    unfolding policy_check_passes discriminatory_pass_def pii_pass_eq unprofessional_pass_eq
    by (simp add: eval_defs)
  have 5: "unprofessional_pass U s =
      [ustr ''Unprofessional language: '' @
         concat (map (\<lambda>word. word @ ustr '', '') (butlast ?ws)) @ last ?ws]"
    if "\<exists>word\<in>set unprofessional_words. str_in word (lower U s)"
  proof -
    have join_eq: "join sep ws = concat (map (\<lambda>w. w @ sep) (butlast ws)) @ last ws"
      if "ws \<noteq> []" for sep ws
      using that by (induction sep ws rule: join.induct) simp_all
    from that have "?ws \<noteq> []" by (auto simp: filter_empty_conv)
    then have "join (ustr '', '') ?ws =
        concat (map (\<lambda>word. word @ ustr '', '') (butlast ?ws)) @ last ?ws"
      by (rule join_eq)
    with that show ?thesis
      by (simp only: unprofessional_pass_eq unprofessional_msg_def if_True)
  qed
  from 1 2 3 4 5 6 unprofessional_words_def show ?thesis by auto
qed

theorem unprofessional_entry_witness:
  "(\<exists>word\<in>set unprofessional_words. str_in word (lower plain_ucd (ustr ''Useless, dumb IDIOT''))) \<and>
   policy_check plain_ucd (ustr ''Useless, dumb IDIOT'') =
     Inr [ustr ''Unprofessional language: dumb, idiot, useless'']"
proof -
  let ?t = "ustr ''Useless, dumb IDIOT''"
  have h: "\<exists>word\<in>set unprofessional_words. str_in word (lower plain_ucd ?t)"
    by (simp add: eval_defs)
  have e: "filter (\<lambda>word. str_in word (lower plain_ucd ?t)) unprofessional_words =
      [ustr ''dumb'', ustr ''idiot'', ustr ''useless'']"
    by (simp add: eval_defs)
  have f: "filter is_unprofessional found = [] \<Longrightarrow> policy_check plain_ucd ?t = Inr (found @ [m])
      \<Longrightarrow> found = []" for found m
    unfolding policy_check_passes discriminatory_pass_def pii_pass_eq unprofessional_pass_eq
    by (simp add: eval_defs)
  from unprofessional_entry [of plain_ucd ?t] h obtain front
    where "policy_check plain_ucd ?t =
        Inr (front @ [ustr ''Unprofessional language: '' @
           concat (map (\<lambda>word. word @ ustr '', '')
             (butlast [ustr ''dumb'', ustr ''idiot'', ustr ''useless''])) @
           last [ustr ''dumb'', ustr ''idiot'', ustr ''useless'']])"
      and "filter is_unprofessional front = []"
    unfolding e by auto
  with f [of front] h show ?thesis by (simp add: ustr_def)
qed

section \<open>Clean input\<close>

lemma check_empty: "policy_check U [] = Inr []"
  unfolding policy_check_passes discriminatory_pass_def pii_pass_eq unprofessional_pass_eq
  by (simp add: eval_defs)

lemma validate_text_clean:
  "policy_check U s = Inr [] \<Longrightarrow> \<exists>r. validate_text U \<lparr>payload_text = s\<rparr> = Inr r \<and> is_valid r"
  by (simp add: validate_text_def)

text \<open>
  Claim C7. For the empty string, and for every string whose lower-cased form contains no
  banned phrase and no unprofessional word and in which no PII pattern is found, the checker
  returns the empty list and the lenient response is valid.
\<close>

theorem clean_input_is_valid:
  "policy_check U [] = Inr [] \<and>
   (\<exists>r. validate_text U \<lparr>payload_text = []\<rparr> = Inr r \<and> is_valid r) \<and>
   ((\<forall>p\<in>set BANNED_PATTERNS. \<not> str_in p (lower U s)) \<and>
    (\<forall>(pii_type, regex)\<in>set PII_PATTERNS. re_search U regex s = Inr False) \<and>
    (\<forall>word\<in>set unprofessional_words. \<not> str_in word (lower U s)) \<longrightarrow>
      policy_check U s = Inr [] \<and>
      (\<exists>r. validate_text U \<lparr>payload_text = s\<rparr> = Inr r \<and> is_valid r))"
proof (intro conjI impI)
  show "policy_check U [] = Inr []" by (rule check_empty)
  show "\<exists>r. validate_text U \<lparr>payload_text = []\<rparr> = Inr r \<and> is_valid r"
    by (rule validate_text_clean [OF check_empty])
next
  assume h: "(\<forall>p\<in>set BANNED_PATTERNS. \<not> str_in p (lower U s)) \<and>
    (\<forall>(pii_type, regex)\<in>set PII_PATTERNS. re_search U regex s = Inr False) \<and>
    (\<forall>word\<in>set unprofessional_words. \<not> str_in word (lower U s))"
  have d: "discriminatory_pass U s = []"
    unfolding discriminatory_pass_def using h by (simp add: filter_none)
  have p: "pii_pass U s = []"
    using h by (simp add: pii_pass_eq PII_PATTERNS_def)
  have u: "unprofessional_pass U s = []"
    using h by (simp add: unprofessional_pass_eq)
  show c: "policy_check U s = Inr []"
    by (simp add: policy_check_passes d p u)
  show "\<exists>r. validate_text U \<lparr>payload_text = s\<rparr> = Inr r \<and> is_valid r"
    by (rule validate_text_clean [OF c])
qed

theorem clean_input_is_valid_witness:
  "list_all (\<lambda>p. \<not> str_in p (lower plain_ucd (ustr ''Well done, Ann!''))) BANNED_PATTERNS \<and>
   list_all (\<lambda>(pii_type, regex). re_search plain_ucd regex (ustr ''Well done, Ann!'') = Inr False)
     PII_PATTERNS \<and>
   list_all (\<lambda>word. \<not> str_in word (lower plain_ucd (ustr ''Well done, Ann!'')))
     unprofessional_words \<and>
   policy_check plain_ucd (ustr ''Well done, Ann!'') = Inr [] \<and>
   (\<exists>r. validate_text plain_ucd \<lparr>payload_text = ustr ''Well done, Ann!''\<rparr> = Inr r \<and> is_valid r)"
proof -
  let ?t = "ustr ''Well done, Ann!''"
  have 1: "\<forall>p\<in>set BANNED_PATTERNS. \<not> str_in p (lower plain_ucd ?t)"
    by (simp add: eval_defs)
  have 2: "\<forall>(pii_type, regex)\<in>set PII_PATTERNS. re_search plain_ucd regex ?t = Inr False"
    by (simp add: PII_PATTERNS_def eval_defs)
  have 3: "\<forall>word\<in>set unprofessional_words. \<not> str_in word (lower plain_ucd ?t)"
    by (simp add: eval_defs)
  from clean_input_is_valid [of plain_ucd ?t] 1 2 3 show ?thesis
    unfolding list_all_iff by blast
qed

section \<open>Size of the result\<close>

lemma length_BANNED_PATTERNS: "length BANNED_PATTERNS = 10"
  by (simp add: BANNED_PATTERNS_def)

lemma distinct_pii_pass: "distinct (pii_pass U s)"
  by (simp add: pii_pass_eq ustr_def)

lemma distinct_unprofessional_pass: "distinct (unprofessional_pass U s)"
  by (simp add: unprofessional_pass_eq)

lemma length_discriminatory_pass: "length (discriminatory_pass U s) \<le> 10"
  unfolding discriminatory_pass_def
  using length_filter_le [of "\<lambda>p. str_in p (lower U s)" BANNED_PATTERNS]
  by (simp add: length_BANNED_PATTERNS)

lemma length_pii_pass: "length (pii_pass U s) \<le> 3"
  by (simp add: pii_pass_eq)

lemma length_unprofessional_pass: "length (unprofessional_pass U s) \<le> 1"
  by (simp add: unprofessional_pass_eq)

text \<open>
  Claim C9. For every input the result has at most 14 entries (ten banned phrases, three
  kinds of PII, one combined unprofessional entry), and its entries are pairwise distinct.
\<close>

theorem at_most_fourteen_distinct:
  "\<exists>found. policy_check U s = Inr found \<and> length found \<le> 14 \<and> distinct found"
proof -
  let ?d = "discriminatory_pass U s" and ?p = "pii_pass U s" and ?u = "unprofessional_pass U s"
  have "set ?d \<inter> set ?p = {}"
    using hd_discriminatory_pass [of _ U s] hd_pii_pass [of _ U s] by fastforce
  moreover have "set ?d \<inter> set ?u = {}"
    using hd_discriminatory_pass [of _ U s] hd_unprofessional_pass [of _ U s] by fastforce
  moreover have "set ?p \<inter> set ?u = {}"
    using hd_pii_pass [of _ U s] hd_unprofessional_pass [of _ U s] by fastforce
  ultimately have "distinct (?d @ ?p @ ?u)"
    by (auto simp: distinct_discriminatory_pass distinct_pii_pass distinct_unprofessional_pass)
  moreover have "length (?d @ ?p @ ?u) \<le> 14"
    using length_discriminatory_pass [of U s] length_pii_pass [of U s]
      length_unprofessional_pass [of U s] by simp
  ultimately show ?thesis by (simp add: policy_check_passes)
qed

theorem at_most_fourteen_distinct_witness:
  "\<exists>found. policy_check plain_ucd (ustr ''dumb, useless: 123-45-6789'') = Inr found \<and>
     length found \<le> 14 \<and> distinct found"
  by (rule at_most_fourteen_distinct)


section \<open>Ten digits are a phone number\<close>

lemma isdecimal_isword: "isdecimal U c \<Longrightarrow> isword U c"
  by (auto simp: isdecimal_def isword_def isalnum_def split: if_splits)

lemma search_from_here: "ends U r (p, s) \<noteq> [] \<Longrightarrow> search_from U r p s"
  by (cases s) simp_all

lemma search_from_skip:
  "ends U r (prev_of p pre, s) \<noteq> [] \<Longrightarrow> search_from U r p (pre @ s)"
proof (induction pre arbitrary: p)
  case Nil
  then show ?case by (simp add: prev_of_def search_from_here)
next
  case (Cons c pre)
  have "prev_of p (c # pre) = prev_of (Some c) pre" by (simp add: prev_of_def)
  with Cons show ?case by simp
qed

lemma digits3:
  "isdecimal U a \<Longrightarrow> isdecimal U b \<Longrightarrow> isdecimal U c \<Longrightarrow>
   (Some c, s) \<in> set (ends U (Max_Repeat 3 (Some 3) digit_set) (p, a # b # c # s))"
  by (simp add: digit_set_def repeat_ends_numeral)

lemma digits4:
  "isdecimal U a \<Longrightarrow> isdecimal U b \<Longrightarrow> isdecimal U c \<Longrightarrow> isdecimal U d \<Longrightarrow>
   (Some d, s) \<in> set (ends U (Max_Repeat 4 (Some 4) digit_set) (p, a # b # c # d # s))"
  by (simp add: digit_set_def repeat_ends_numeral)

lemma optional_skip: "st \<in> set (ends U (Max_Repeat 0 (Some 1) r) st)"
  by (cases st) (simp add: repeat_ends_1)

lemma ends_SeqI:
  "m \<in> set (ends U a st) \<Longrightarrow> e \<in> set (ends U b m) \<Longrightarrow> e \<in> set (ends U (Seq a b) st)"
  by auto

lemma phone_ten_digits:
  assumes d: "\<forall>d\<in>set [d0, d1, d2, d3, d4, d5, d6, d7, d8, d9]. isdecimal U d"
    and before: "case q of None \<Rightarrow> True | Some c \<Rightarrow> \<not> isword U c"
    and after: "case post of [] \<Rightarrow> True | c # cs \<Rightarrow> \<not> isword U c"
  shows "ends U phone_rx (q, d0 # d1 # d2 # d3 # d4 # d5 # d6 # d7 # d8 # d9 # post) \<noteq> []"
proof -
  let ?s6 = "d6 # d7 # d8 # d9 # post"
  let ?s3 = "d3 # d4 # d5 # ?s6"
  let ?s = "d0 # d1 # d2 # ?s3"
  have w0: "isword U d0" and w9: "isword U d9" using d by (simp_all add: isdecimal_isword)
  have b0: "(q, ?s) \<in> set (ends U At_Boundary (q, ?s))"
    using before w0 by (simp split: option.splits)
  have b9: "(Some d9, post) \<in> set (ends U At_Boundary (Some d9, post))"
    using after w9 by (simp split: list.splits)
  have e: "(Some d9, post) \<in> set (ends U (Seq At_Boundary Empty) (Some d9, post))"
    by (rule ends_SeqI[OF b9]) simp
  have g1: "(Some d2, ?s3) \<in> set (ends U (Max_Repeat 3 (Some 3) digit_set) (q, ?s))"
    by (rule digits3) (use d in simp_all)
  have g2: "(Some d5, ?s6) \<in> set (ends U (Max_Repeat 3 (Some 3) digit_set) (Some d2, ?s3))"
    by (rule digits3) (use d in simp_all)
  have g3: "(Some d9, post) \<in> set (ends U (Max_Repeat 4 (Some 4) digit_set) (Some d5, ?s6))"
    by (rule digits4) (use d in simp_all)
  have "(Some d9, post) \<in> set (ends U phone_rx (q, ?s))"
    unfolding phone_rx_def
    by (intro ends_SeqI[OF b0] ends_SeqI[OF optional_skip] ends_SeqI[OF g1] ends_SeqI[OF g2]
        ends_SeqI[OF g3] e)
  then show ?thesis by auto
qed

lemma length_ten:
  "length ds = 10 \<Longrightarrow> \<exists>d0 d1 d2 d3 d4 d5 d6 d7 d8 d9. ds = [d0, d1, d2, d3, d4, d5, d6, d7, d8, d9]"
  by (auto simp: numeral_eq_Suc length_Suc_conv)

lemma phone_search_ten_digits:
  assumes len: "length ds = 10"
    and dig: "\<forall>d\<in>set ds. isdecimal U d"
    and before: "pre = [] \<or> \<not> isword U (last pre)"
    and after: "post = [] \<or> \<not> isword U (hd post)"
  shows "re_search U phone_regex (pre @ ds @ post) = Inr True"
proof -
  from length_ten [OF len] obtain d0 d1 d2 d3 d4 d5 d6 d7 d8 d9
    where ds: "ds = [d0, d1, d2, d3, d4, d5, d6, d7, d8, d9]" by blast
  have q: "case prev_of None pre of None \<Rightarrow> True | Some c \<Rightarrow> \<not> isword U c"
    using before by (auto simp: prev_of_def)
  have a: "case post of [] \<Rightarrow> True | c # cs \<Rightarrow> \<not> isword U c"
    using after by (cases post) auto
  have "ends U phone_rx (prev_of None pre, ds @ post) \<noteq> []"
    using phone_ten_digits [OF dig [unfolded ds] q a] by (simp add: ds)
  then have "search_from U phone_rx None (pre @ ds @ post)"
    by (rule search_from_skip)
  then show ?thesis by (simp add: re_search_def compile_phone)
qed

text \<open>
  Claim C10. Every input that contains a run of exactly ten decimal digits, with no word
  character directly before or after the run, is reported as phone PII. The digits may be
  any characters that \<open>\d\<close> accepts, and a word character is what \<open>\b\<close> takes for one: an
  alphabetic, decimal, digit or numeric character, or the underscore. The input
  \<open>1234567890\<close> yields exactly the one entry \<open>PII detected: phone\<close>.
\<close>

theorem ten_digit_run_is_phone:
  "(length ds = 10 \<and> (\<forall>d\<in>set ds. isdecimal U d) \<and>
    (pre = [] \<or> \<not> isword U (last pre)) \<and> (post = [] \<or> \<not> isword U (hd post)) \<longrightarrow>
      (\<exists>found. policy_check U (pre @ ds @ post) = Inr found \<and>
         ustr ''PII detected: phone'' \<in> set found)) \<and>
   policy_check U (ustr ''1234567890'') = Inr [ustr ''PII detected: phone'']"
proof (intro conjI impI)
  assume h: "length ds = 10 \<and> (\<forall>d\<in>set ds. isdecimal U d) \<and>
    (pre = [] \<or> \<not> isword U (last pre)) \<and> (post = [] \<or> \<not> isword U (hd post))"
  then have "re_search U phone_regex (pre @ ds @ post) = Inr True"
    by (intro phone_search_ten_digits) simp_all
  then have "ustr ''PII detected: phone'' \<in> set (pii_pass U (pre @ ds @ post))"
    by (simp add: pii_pass_eq)
  then show "\<exists>found. policy_check U (pre @ ds @ post) = Inr found \<and>
         ustr ''PII detected: phone'' \<in> set found"
    by (simp add: policy_check_passes)
next
  show "policy_check U (ustr ''1234567890'') = Inr [ustr ''PII detected: phone'']"
    unfolding policy_check_passes discriminatory_pass_def pii_pass_eq unprofessional_pass_eq
    by (simp add: eval_defs)
qed

theorem ten_digit_run_is_phone_witness:
  "length (ustr ''0301234567'') = 10 \<and>
   list_all (isdecimal plain_ucd) (ustr ''0301234567'') \<and>
   \<not> isword plain_ucd (last (ustr ''Tel: '')) \<and>
   \<not> isword plain_ucd (hd (ustr ''.'')) \<and>
   (\<exists>found. policy_check plain_ucd (ustr ''Tel: '' @ ustr ''0301234567'' @ ustr ''.'') = Inr found \<and>
      ustr ''PII detected: phone'' \<in> set found)"
proof -
  have 1: "length (ustr ''0301234567'') = 10"
    and 2: "\<forall>d\<in>set (ustr ''0301234567''). isdecimal plain_ucd d"
    and 3: "\<not> isword plain_ucd (last (ustr ''Tel: ''))"
    and 4: "\<not> isword plain_ucd (hd (ustr ''.''))"
    by (simp_all add: eval_defs)
  from ten_digit_run_is_phone [of "ustr ''0301234567''" plain_ucd "ustr ''Tel: ''" "ustr ''.''"]
    1 2 3 4 show ?thesis
    unfolding list_all_iff by blast
qed

text \<open>
  With ``word character'' read as letter, digit or underscore the property fails. The
  fraction one half is none of the three, yet \<open>\b\<close> takes it for a word character, so there
  is no word boundary between it and a digit: ten digits that follow it are not reported.
\<close>

theorem ten_digit_run_counterexample:
  "length (ustr ''1234567890'') = 10 \<and>
   list_all (isdecimal half_ucd) (ustr ''1234567890'') \<and>
   \<not> letter_digit_underscore half_ucd (last [189]) \<and>
   policy_check half_ucd ([189] @ ustr ''1234567890'' @ []) = Inr []"
proof -
  have "policy_check half_ucd ([189] @ ustr ''1234567890'' @ []) = Inr []"
    unfolding policy_check_passes discriminatory_pass_def pii_pass_eq unprofessional_pass_eq
    by (simp add: eval_defs half_ucd_def plain_ucd_def)
  then show ?thesis
    by (simp add: ustr_def isdecimal_def letter_digit_underscore_def half_ucd_def plain_ucd_def)
qed

end
